theory Spec2Isabelle
  imports Main
begin

section \<open>The machine description and the configurations\<close>

text \<open>
  The simulator of \<^verbatim>\<open>ntm_isadurni.py\<close>. \<^verbatim>\<open>read_ntm\<close> returns a dictionary with
  fixed keys; a transition is a dictionary with the five keys of a row. Every value of
  these dictionaries is a string of the CSV file, of any length.
\<close>

record transition =
  current_state :: string
  input_char :: string
  next_state :: string
  tape_write :: string
  head_move :: string

record automata =
  machine_name :: string
  state_names :: "string list"
  sigma :: "string list"
  gamma :: "string list"
  start_state :: string
  accept_state :: string
  reject_state :: string
  transitions :: "transition list"

text \<open>A configuration is the list \<^verbatim>\<open>[left_of_head, state, right_of_head]\<close>.\<close>

type_synonym config = "string \<times> string \<times> string"

text \<open>
  The only exception \<^verbatim>\<open>simulate_ntm\<close> can raise on a machine built by \<^verbatim>\<open>read_ntm\<close>:
  \<^verbatim>\<open>new_head\<close> is read at line 111 before any branch of lines 103 to 108 has assigned it.
\<close>

datatype error = UnboundLocalError

text \<open>
  The variables of \<^verbatim>\<open>simulate_ntm\<close> that the two inner loops update. \<^verbatim>\<open>new_head\<close> is a
  local of the whole function: it keeps its last value from one transition to the next,
  and \<open>None\<close> stands for "not assigned yet".
\<close>

record locals =
  total_transitions :: nat
  accept_count :: nat
  reject_count :: nat
  next_level :: "config list"
  new_head :: "int option"

text \<open>What the run prints at its end: one of the three messages, with the number in it.\<close>

datatype verdict = Accepted nat | Rejected nat | Stopped int

record result =
  outcome :: verdict
  total :: nat
  trace :: "config list list"

section \<open>The simulation\<close>

text \<open>\<^verbatim>\<open>list(s)\<close>: the list of the one-character strings of \<open>s\<close>.\<close>

definition list_of_str :: "string \<Rightarrow> string list" where
  "list_of_str s = map (\<lambda>c. [c]) s"

text \<open>
  The condition of line 91,
  \<^verbatim>\<open>t['current_state'] == state and (t['input_char'] == tape[head] if head < len(tape) else "_")\<close>.
  The conditional expression binds weaker than \<^verbatim>\<open>==\<close>: when the head is past the tape
  the second operand is the string \<^verbatim>\<open>"_"\<close>, which is true as a condition.
\<close>

definition rule_applies :: "transition \<Rightarrow> string \<Rightarrow> string list \<Rightarrow> nat \<Rightarrow> bool" where
  "rule_applies t state tape head \<longleftrightarrow>
     current_state t = state \<and> (if head < length tape then input_char t = tape ! head else True)"

text \<open>Lines 96 to 100: the copy of the tape with the cell under the head written.\<close>

definition write_cell :: "transition \<Rightarrow> string list \<Rightarrow> nat \<Rightarrow> string list" where
  "write_cell t tape head =
     (if head < length tape then tape[head := tape_write t] else tape @ [tape_write t])"

text \<open>
  Lines 103 to 108: the \<^verbatim>\<open>if\<close>/\<^verbatim>\<open>elif\<close> chain has no \<^verbatim>\<open>else\<close>, so any other move
  leaves \<^verbatim>\<open>new_head\<close> as it was (the third argument).
\<close>

definition move_head :: "transition \<Rightarrow> nat \<Rightarrow> int option \<Rightarrow> int option" where
  "move_head t head old =
     (if head_move t = ''R'' then Some (int head + 1)
      else if head_move t = ''L'' then Some (int head - 1)
      else if head_move t = ''S'' then Some (int head)
      else old)"

text \<open>Lines 111 to 115: a blank is added where the head has left the tape.\<close>

definition fit_bounds :: "string list \<Rightarrow> int \<Rightarrow> string list \<times> int" where
  "fit_bounds new_tape h =
     (let new_tape1 = (if h < 0 then ''_'' # new_tape else new_tape);
          h1 = (if h < 0 then 0 else h);
          new_tape2 = (if int (length new_tape1) \<le> h1 then new_tape1 @ [''_'']
                       else new_tape1)
      in (new_tape2, h1))"

text \<open>
  Lines 93 to 122: the body of the \<^verbatim>\<open>if\<close> of line 91, for one transition. Reading
  \<^verbatim>\<open>new_head\<close> at line 111 while it is unassigned raises.
\<close>

definition apply_transition ::
  "transition \<Rightarrow> string list \<Rightarrow> nat \<Rightarrow> locals \<Rightarrow> error + locals" where
  "apply_transition t tape head st =
     (case move_head t head (new_head st) of
        None \<Rightarrow> Inl UnboundLocalError
      | Some h \<Rightarrow>
          (case fit_bounds (write_cell t tape head) h of
             (new_tape, h1) \<Rightarrow>
               Inr (st\<lparr>total_transitions := total_transitions st + 1,
                       new_head := Some h1,
                       next_level := next_level st @
                         [(concat (take (nat h1) new_tape), next_state t,
                           concat (drop (nat h1) new_tape))]\<rparr>)))"

text \<open>Lines 90 to 122: the loop over the transition table, for one configuration.\<close>

fun transition_loop ::
  "string \<Rightarrow> string list \<Rightarrow> nat \<Rightarrow> transition list \<Rightarrow> locals \<Rightarrow> error + locals" where
  "transition_loop state tape head [] st = Inr st"
| "transition_loop state tape head (t # ts) st =
     (if rule_applies t state tape head then
        (case apply_transition t tape head st of
           Inl e \<Rightarrow> Inl e
         | Inr st' \<Rightarrow> transition_loop state tape head ts st')
      else transition_loop state tape head ts st)"

text \<open>Lines 74 to 122: the loop over the configurations of the current level.\<close>

fun config_loop :: "automata \<Rightarrow> config list \<Rightarrow> locals \<Rightarrow> error + locals" where
  "config_loop A [] st = Inr st"
| "config_loop A ((left_of_head, state, right_of_head) # cs) st =
     (if state = accept_state A then
        config_loop A cs (st\<lparr>accept_count := accept_count st + 1\<rparr>)
      else if state = reject_state A then
        config_loop A cs
          (st\<lparr>reject_count := reject_count st + 1,
              next_level := next_level st @ [(left_of_head, state, right_of_head)]\<rparr>)
      else
        (case transition_loop state (list_of_str (left_of_head @ right_of_head))
                (length left_of_head) (transitions A) st of
           Inl e \<Rightarrow> Inl e
         | Inr st' \<Rightarrow> config_loop A cs st'))"

text \<open>
  Lines 70 to 140: the \<^verbatim>\<open>while\<close> loop and what follows it. \<open>tree\<close> is never empty, so
  \<^verbatim>\<open>tree[-1]\<close> is its last element.
\<close>

function while_loop ::
  "automata \<Rightarrow> int \<Rightarrow> config list list \<Rightarrow> nat \<Rightarrow> locals \<Rightarrow> error + result" where
  "while_loop A max_steps tree depth st =
     (if int depth < max_steps then
        (case config_loop A (last tree) (st\<lparr>next_level := []\<rparr>) of
           Inl e \<Rightarrow> Inl e
         | Inr st' \<Rightarrow>
             if next_level st' = [] then
               Inr \<lparr>outcome = (if accept_count st' \<noteq> 0 then Accepted depth else Rejected depth),
                    total = total_transitions st', trace = tree\<rparr>
             else while_loop A max_steps (tree @ [next_level st']) (depth + 1) st')
      else Inr \<lparr>outcome = Stopped max_steps, total = total_transitions st, trace = tree\<rparr>)"
  by pat_completeness auto
termination
  by (relation "measure (\<lambda>(A, max_steps, tree, depth, st). nat (max_steps - int depth))") auto

text \<open>Lines 46 to 63: the state before the loop.\<close>

definition initial_locals :: locals where
  "initial_locals =
     \<lparr>total_transitions = 0, accept_count = 0, reject_count = 0, next_level = [],
      new_head = None\<rparr>"

definition simulate_ntm :: "automata \<Rightarrow> string \<Rightarrow> int \<Rightarrow> error + result" where
  "simulate_ntm A input_string max_steps =
     while_loop A max_steps
       [[([], start_state A, concat (list_of_str input_string))]] 0 initial_locals"

text \<open>The call with the step bound left out (line 44).\<close>

definition simulate_ntm_default :: "automata \<Rightarrow> string \<Rightarrow> error + result" where
  "simulate_ntm_default A input_string = simulate_ntm A input_string 100"

section \<open>The run as a relation\<close>

text \<open>
  The same \<^verbatim>\<open>while\<close> loop as a big-step relation between the state at the loop head and
  the result of the run: one rule for each way an iteration can go. Determinism of the
  simulation is a statement about this relation.
\<close>

inductive run_loop ::
  "automata \<Rightarrow> int \<Rightarrow> config list list \<Rightarrow> nat \<Rightarrow> locals \<Rightarrow> error + result \<Rightarrow> bool"
  for A :: automata and max_steps :: int where
  bound_reached:
    "\<not> int depth < max_steps \<Longrightarrow>
     run_loop A max_steps tree depth st
       (Inr \<lparr>outcome = Stopped max_steps, total = total_transitions st, trace = tree\<rparr>)"
| level_raises:
    "int depth < max_steps \<Longrightarrow>
     config_loop A (last tree) (st\<lparr>next_level := []\<rparr>) = Inl e \<Longrightarrow>
     run_loop A max_steps tree depth st (Inl e)"
| level_empty:
    "int depth < max_steps \<Longrightarrow>
     config_loop A (last tree) (st\<lparr>next_level := []\<rparr>) = Inr st' \<Longrightarrow>
     next_level st' = [] \<Longrightarrow>
     run_loop A max_steps tree depth st
       (Inr \<lparr>outcome = (if accept_count st' \<noteq> 0 then Accepted depth else Rejected depth),
             total = total_transitions st', trace = tree\<rparr>)"
| level_next:
    "int depth < max_steps \<Longrightarrow>
     config_loop A (last tree) (st\<lparr>next_level := []\<rparr>) = Inr st' \<Longrightarrow>
     next_level st' \<noteq> [] \<Longrightarrow>
     run_loop A max_steps (tree @ [next_level st']) (depth + 1) st' res \<Longrightarrow>
     run_loop A max_steps tree depth st res"

definition simulate_run :: "automata \<Rightarrow> string \<Rightarrow> int \<Rightarrow> error + result \<Rightarrow> bool" where
  "simulate_run A input_string max_steps res \<longleftrightarrow>
     run_loop A max_steps
       [[([], start_state A, concat (list_of_str input_string))]] 0 initial_locals res"

section \<open>Machines used as concrete inputs\<close>

definition rule :: "string \<Rightarrow> string \<Rightarrow> string \<Rightarrow> string \<Rightarrow> string \<Rightarrow> transition" where
  "rule q a q' b mv =
     \<lparr>current_state = q, input_char = a, next_state = q', tape_write = b, head_move = mv\<rparr>"

definition machine :: "string \<Rightarrow> string \<Rightarrow> string \<Rightarrow> transition list \<Rightarrow> automata" where
  "machine q0 qa qr ts =
     \<lparr>machine_name = ''example'', state_names = [], sigma = [''a'', ''b''],
      gamma = [''a'', ''b'', ''x'', ''_''], start_state = q0, accept_state = qa,
      reject_state = qr, transitions = ts\<rparr>"

text \<open>One rule, reading \<open>a\<close>; run on the empty input the head starts past the tape.\<close>

definition machine_blank :: automata where
  "machine_blank = machine ''q0'' ''qa'' ''qr'' [rule ''q0'' ''a'' ''q1'' ''x'' ''R'']"

text \<open>One branch accepts after one step, another one lives for two steps.\<close>

definition machine_late :: automata where
  "machine_late =
     machine ''q0'' ''qa'' ''qr''
       [rule ''q0'' ''a'' ''qa'' ''a'' ''S'', rule ''q0'' ''a'' ''q1'' ''a'' ''S'',
        rule ''q1'' ''a'' ''q2'' ''a'' ''S'']"

text \<open>One branch rejects, another accepts, both after one step.\<close>

definition machine_both :: automata where
  "machine_both =
     machine ''q0'' ''qa'' ''qr''
       [rule ''q0'' ''a'' ''qr'' ''a'' ''S'', rule ''q0'' ''a'' ''qa'' ''a'' ''S'']"

text \<open>The accepting and the rejecting state are the same state \<open>qh\<close>.\<close>

definition machine_halt :: automata where
  "machine_halt = machine ''q0'' ''qh'' ''qh'' [rule ''q0'' ''a'' ''qh'' ''a'' ''S'']"

text \<open>Empty tables: an ordinary start state, and a start state that accepts.\<close>

definition machine_empty :: automata where
  "machine_empty = machine ''q0'' ''qa'' ''qr'' []"

definition machine_start_accepts :: automata where
  "machine_start_accepts = machine ''qa'' ''qa'' ''qr'' []"

text \<open>The second rule has the move \<open>X\<close>, which is none of \<open>L\<close>, \<open>R\<close>, \<open>S\<close>.\<close>

definition machine_bad_move :: automata where
  "machine_bad_move =
     machine ''q0'' ''qa'' ''qr''
       [rule ''q0'' ''a'' ''q1'' ''a'' ''R'', rule ''q0'' ''a'' ''q2'' ''b'' ''X'']"

lemmas machine_defs =
  machine_def rule_def machine_blank_def machine_late_def machine_both_def machine_halt_def
  machine_empty_def machine_start_accepts_def machine_bad_move_def

lemmas run_defs =
  simulate_ntm_def simulate_ntm_default_def initial_locals_def list_of_str_def
  rule_applies_def apply_transition_def write_cell_def move_head_def fit_bounds_def

declare while_loop.simps [simp del]

section \<open>The tape\<close>

lemma concat_list_of_str [simp]: "concat (list_of_str s) = s"
  by (induction s) (simp_all add: list_of_str_def)

lemma length_list_of_str [simp]: "length (list_of_str s) = length s"
  by (simp add: list_of_str_def)




lemma write_cell_not_Nil: "write_cell t tape head \<noteq> []"
  by (auto simp: write_cell_def)

lemma fit_bounds_cases:
  assumes "W \<noteq> []" and "fit_bounds W h = (tp, h1)"
  shows "tp \<in> {W, ''_'' # W, W @ [''_'']} \<and> 0 \<le> h1"
  using assms by (cases W) (auto simp: fit_bounds_def Let_def split: if_splits)

text \<open>What a transition that does not raise leaves behind.\<close>

lemma apply_transition_Inr:
  assumes "apply_transition t tape head st = Inr st'"
  obtains n tp where
    "st' = st\<lparr>total_transitions := total_transitions st + 1, new_head := Some (int n),
              next_level := next_level st @
                [(concat (take n tp), next_state t, concat (drop n tp))]\<rparr>"
    and "tp \<in> {write_cell t tape head, ''_'' # write_cell t tape head,
               write_cell t tape head @ [''_'']}"
proof -
  from assms obtain h where h: "move_head t head (new_head st) = Some h"
    by (auto simp: apply_transition_def split: option.splits)
  obtain tp h1 where f: "fit_bounds (write_cell t tape head) h = (tp, h1)"
    by (cases "fit_bounds (write_cell t tape head) h")
  from fit_bounds_cases[OF write_cell_not_Nil f]
  have tp: "tp \<in> {write_cell t tape head, ''_'' # write_cell t tape head,
               write_cell t tape head @ [''_'']}" and h1: "0 \<le> h1" by auto
  from assms h f h1
  have "st' = st\<lparr>total_transitions := total_transitions st + 1,
              new_head := Some (int (nat h1)),
              next_level := next_level st @
                [(concat (take (nat h1) tp), next_state t, concat (drop (nat h1) tp))]\<rparr>"
    by (simp add: apply_transition_def)
  with tp that show thesis by blast
qed



section \<open>The inner loops\<close>

text \<open>
  What the loop over the table and the loop over a level leave unchanged: the counters
  only grow and the next level is only extended.
\<close>

lemma apply_transition_frame:
  assumes "apply_transition t tape head st = Inr st'"
  shows "accept_count st' = accept_count st \<and> reject_count st' = reject_count st \<and>
         total_transitions st' = total_transitions st + 1 \<and>
         (\<exists>c. next_level st' = next_level st @ [c]) \<and> new_head st' \<noteq> None"
  using assms by (elim apply_transition_Inr) simp

lemma transition_loop_frame:
  "transition_loop q tape head ts st = Inr st' \<Longrightarrow>
   accept_count st' = accept_count st \<and> reject_count st' = reject_count st \<and>
   total_transitions st \<le> total_transitions st' \<and>
   (\<exists>ext. next_level st' = next_level st @ ext)"
proof (induction ts arbitrary: st)
  case Nil
  then show ?case by simp
next
  case (Cons t ts)
  show ?case
  proof (cases "rule_applies t q tape head")
    case True
    with Cons.prems obtain st1 where a: "apply_transition t tape head st = Inr st1"
      and l: "transition_loop q tape head ts st1 = Inr st'"
      by (auto split: sum.splits)
    from apply_transition_frame[OF a] Cons.IH[OF l] show ?thesis by auto
  next
    case False
    with Cons.prems Cons.IH[of st] show ?thesis by simp
  qed
qed

lemma config_loop_frame:
  "config_loop A cs st = Inr st' \<Longrightarrow>
   accept_count st \<le> accept_count st' \<and> total_transitions st \<le> total_transitions st' \<and>
   (\<exists>ext. next_level st' = next_level st @ ext)"
proof (induction A cs st rule: config_loop.induct)
  case (1 A st)
  then show ?case by simp
next
  case (2 A l q r cs st)
  show ?case
  proof (cases "q = accept_state A")
    case True
    with 2 show ?thesis by fastforce
  next
    case na: False
    show ?thesis
    proof (cases "q = reject_state A")
      case True
      with na 2 show ?thesis by fastforce
    next
      case False
      with na "2.prems" obtain st1 where
        t: "transition_loop q (list_of_str (l @ r)) (length l) (transitions A) st = Inr st1"
        and c: "config_loop A cs st1 = Inr st'"
        by (auto split: sum.splits)
      from transition_loop_frame[OF t] "2.IH"(3)[OF na False t c] show ?thesis by auto
    qed
  qed
qed

text \<open>
  A configuration in the rejecting state is in the next level, and one in the accepting
  state is counted.
\<close>

lemma config_loop_keeps_reject:
  "config_loop A cs st = Inr st' \<Longrightarrow> (l, reject_state A, r) \<in> set cs \<Longrightarrow>
   reject_state A \<noteq> accept_state A \<Longrightarrow> (l, reject_state A, r) \<in> set (next_level st')"
proof (induction A cs st rule: config_loop.induct)
  case (1 A st)
  then show ?case by simp
next
  case (2 A l0 q r0 cs st)
  show ?case
  proof (cases "(l, reject_state A, r) = (l0, q, r0)")
    case True
    with "2.prems" have "config_loop A cs
          (st\<lparr>reject_count := reject_count st + 1,
              next_level := next_level st @ [(l, reject_state A, r)]\<rparr>) = Inr st'"
      by simp
    from config_loop_frame[OF this] show ?thesis by auto
  next
    case False
    with "2.prems"(2) have mem: "(l, reject_state A, r) \<in> set cs" by auto
    show ?thesis
    proof (cases "q = accept_state A")
      case True
      with 2 mem show ?thesis by simp
    next
      case na: False
      show ?thesis
      proof (cases "q = reject_state A")
        case True
        with na 2 mem show ?thesis by simp
      next
        case False
        with na "2.prems" obtain st1 where
          t: "transition_loop q (list_of_str (l0 @ r0)) (length l0) (transitions A) st = Inr st1"
          and c: "config_loop A cs st1 = Inr st'"
          by (auto split: sum.splits)
        from "2.IH"(3)[OF na False t c mem "2.prems"(3)] show ?thesis .
      qed
    qed
  qed
qed

lemma config_loop_counts_accept:
  "config_loop A cs st = Inr st' \<Longrightarrow> (l, accept_state A, r) \<in> set cs \<Longrightarrow>
   accept_count st < accept_count st'"
proof (induction A cs st rule: config_loop.induct)
  case (1 A st)
  then show ?case by simp
next
  case (2 A l0 q r0 cs st)
  show ?case
  proof (cases "q = accept_state A")
    case True
    with "2.prems" have "config_loop A cs (st\<lparr>accept_count := accept_count st + 1\<rparr>) = Inr st'"
      by simp
    from config_loop_frame[OF this] show ?thesis by simp
  next
    case na: False
    with "2.prems"(2) have mem: "(l, accept_state A, r) \<in> set cs" by auto
    show ?thesis
    proof (cases "q = reject_state A")
      case True
      with na 2 mem show ?thesis by simp
    next
      case False
      with na "2.prems" obtain st1 where
        t: "transition_loop q (list_of_str (l0 @ r0)) (length l0) (transitions A) st = Inr st1"
        and c: "config_loop A cs st1 = Inr st'"
        by (auto split: sum.splits)
      from "2.IH"(3)[OF na False t c mem] transition_loop_frame[OF t] show ?thesis by simp
    qed
  qed
qed

text \<open>
  The accept counter is read by neither loop: adding to it before a loop or after it is
  the same.
\<close>

lemma apply_transition_accept_count:
  "apply_transition t tape head (st\<lparr>accept_count := accept_count st + k\<rparr>) =
   map_sum id (\<lambda>s. s\<lparr>accept_count := accept_count s + k\<rparr>) (apply_transition t tape head st)"
  by (simp add: apply_transition_def split: option.splits prod.splits)

lemma transition_loop_accept_count:
  "transition_loop q tape head ts (st\<lparr>accept_count := accept_count st + k\<rparr>) =
   map_sum id (\<lambda>s. s\<lparr>accept_count := accept_count s + k\<rparr>) (transition_loop q tape head ts st)"
proof (induction ts arbitrary: st)
  case Nil
  show ?case by simp
next
  case (Cons t ts)
  show ?case
  proof (cases "apply_transition t tape head st")
    case (Inl e)
    then show ?thesis by (simp add: apply_transition_accept_count Cons.IH)
  next
    case (Inr st1)
    then show ?thesis by (simp add: apply_transition_accept_count Cons.IH)
  qed
qed

lemma config_loop_accept_count:
  "config_loop A cs (st\<lparr>accept_count := accept_count st + k\<rparr>) =
   map_sum id (\<lambda>s. s\<lparr>accept_count := accept_count s + k\<rparr>) (config_loop A cs st)"
proof (induction A cs st rule: config_loop.induct)
  case (1 A st)
  show ?case by simp
next
  case (2 A l q r cs st)
  show ?case
  proof (cases "q = accept_state A")
    case True
    with "2.IH"(1)[OF True] show ?thesis by (simp add: add.commute add.left_commute)
  next
    case na: False
    show ?thesis
    proof (cases "q = reject_state A")
      case True
      let ?st0 = "st\<lparr>accept_count := accept_count st + k\<rparr>"
      let ?st1 = "st\<lparr>reject_count := reject_count st + 1,
                     next_level := next_level st @ [(l, q, r)]\<rparr>"
      have step: "config_loop A ((l, q, r) # cs) S =
           config_loop A cs (S\<lparr>reject_count := reject_count S + 1,
                               next_level := next_level S @ [(l, q, r)]\<rparr>)" for S
        using na True by simp
      have eq: "?st0\<lparr>reject_count := reject_count ?st0 + 1,
                    next_level := next_level ?st0 @ [(l, q, r)]\<rparr> =
            ?st1\<lparr>accept_count := accept_count ?st1 + k\<rparr>"
        by (cases st) simp
      note step[of ?st0]
      also from eq have "config_loop A cs (?st0\<lparr>reject_count := reject_count ?st0 + 1,
                    next_level := next_level ?st0 @ [(l, q, r)]\<rparr>) =
           config_loop A cs (?st1\<lparr>accept_count := accept_count ?st1 + k\<rparr>)"
        by (rule arg_cong)
      also note "2.IH"(2)[OF na True]
      also note step[of st, symmetric]
      finally show ?thesis .
    next
      case False
      show ?thesis
      proof (cases "transition_loop q (list_of_str (l @ r)) (length l) (transitions A) st")
        case (Inl e)
        with na False show ?thesis by (simp add: transition_loop_accept_count)
      next
        case (Inr st1)
        with na False "2.IH"(3)[OF na False Inr] show ?thesis
          by (simp add: transition_loop_accept_count)
      qed
    qed
  qed
qed

lemma config_loop_append:
  "config_loop A (pre @ post) st =
     (case config_loop A pre st of Inl e \<Rightarrow> Inl e | Inr st1 \<Rightarrow> config_loop A post st1)"
proof (induction A pre st rule: config_loop.induct)
  case (1 A st)
  show ?case by simp
next
  case (2 A l q r cs st)
  then show ?case by (simp split: sum.splits)
qed

text \<open>
  With every move among \<open>L\<close>, \<open>R\<close>, \<open>S\<close> the variable \<^verbatim>\<open>new_head\<close> is assigned before
  it is read, and no loop raises.
\<close>

lemma apply_transition_known_move:
  "head_move t \<in> {''L'', ''R'', ''S''} \<Longrightarrow> \<exists>st'. apply_transition t tape head st = Inr st'"
  by (auto simp: apply_transition_def move_head_def split: prod.splits)

lemma transition_loop_known_moves:
  "\<forall>t \<in> set ts. head_move t \<in> {''L'', ''R'', ''S''} \<Longrightarrow>
   \<exists>st'. transition_loop q tape head ts st = Inr st'"
proof (induction ts arbitrary: st)
  case Nil
  show ?case by simp
next
  case (Cons t ts)
  from Cons.prems obtain st1 where "apply_transition t tape head st = Inr st1"
    using apply_transition_known_move[of t tape head st] by auto
  with Cons show ?case by simp
qed

lemma config_loop_known_moves:
  "\<forall>t \<in> set (transitions A). head_move t \<in> {''L'', ''R'', ''S''} \<Longrightarrow>
   \<exists>st'. config_loop A cs st = Inr st'"
proof (induction A cs st rule: config_loop.induct)
  case (1 A st)
  show ?case by simp
next
  case (2 A l q r cs st)
  from transition_loop_known_moves[OF "2.prems"] obtain st1 where
    "transition_loop q (list_of_str (l @ r)) (length l) (transitions A) st = Inr st1"
    by blast
  with 2 show ?case by simp
qed

section \<open>The while loop\<close>

text \<open>
  The function \<open>while_loop\<close> and the relation \<open>run_loop\<close> describe the same loop: the
  relation holds of the function's value, and of nothing else.
\<close>

lemma run_loop_while_loop: "run_loop A m tree depth st (while_loop A m tree depth st)"
proof (induction A m tree depth st rule: while_loop.induct)
  case (1 A m tree depth st)
  show ?case
  proof (cases "int depth < m")
    case False
    then show ?thesis
      by (simp add: while_loop.simps[of A m tree depth st] run_loop.bound_reached)
  next
    case True
    show ?thesis
    proof (cases "config_loop A (last tree) (st\<lparr>next_level := []\<rparr>)")
      case (Inl e)
      with True show ?thesis
        by (simp add: while_loop.simps[of A m tree depth st] run_loop.level_raises)
    next
      case (Inr st')
      show ?thesis
      proof (cases "next_level st' = []")
        case e: True
        from run_loop.level_empty[OF True Inr e] True Inr e show ?thesis
          by (simp add: while_loop.simps[of A m tree depth st])
      next
        case ne: False
        from "1.IH"[OF True Inr ne] have
          "run_loop A m (tree @ [next_level st']) (depth + 1) st'
             (while_loop A m (tree @ [next_level st']) (depth + 1) st')" .
        from run_loop.level_next[OF True Inr ne this] True Inr ne show ?thesis
          by (simp add: while_loop.simps[of A m tree depth st])
      qed
    qed
  qed
qed


lemma simulate_run_simulate_ntm: "simulate_run A s m (simulate_ntm A s m)"
  by (simp add: simulate_run_def simulate_ntm_def run_loop_while_loop)

text \<open>
  Invariants of the loop, by induction on the run: the trace extends the tree, the depth
  is the index of the last level, a rejecting configuration is handed from each level to
  the next and keeps the run going to the step bound, and an accepting configuration in
  a processed level has been counted.
\<close>

lemma run_loop_trace_prefix:
  "run_loop A m tree depth st x \<Longrightarrow> x = Inr res \<Longrightarrow> \<exists>ext. trace res = tree @ ext"
proof (induction arbitrary: res rule: run_loop.induct)
  case (level_next depth tree st st' x)
  then show ?case by fastforce
qed auto

lemma run_loop_depth:
  "run_loop A m tree depth st x \<Longrightarrow> x = Inr res \<Longrightarrow> length tree = depth + 1 \<Longrightarrow>
   (case outcome res of
      Accepted d \<Rightarrow> int d < m \<and> length (trace res) = d + 1
    | Rejected d \<Rightarrow> int d < m \<and> length (trace res) = d + 1
    | Stopped k \<Rightarrow> k = m \<and> length (trace res) = max (nat m) depth + 1)"
proof (induction arbitrary: res rule: run_loop.induct)
  case (bound_reached depth tree st)
  then show ?case by (auto simp: max_def)
next
  case (level_raises depth tree st e)
  then show ?case by simp
next
  case (level_empty depth tree st st')
  then show ?case by auto
next
  case (level_next depth tree st st' x)
  from level_next.IH[OF level_next.prems(1)] level_next.prems(2) level_next.hyps(1)
  show ?case by (auto split: verdict.splits simp: max_def)
qed

lemma run_loop_reject_kept:
  "run_loop A m tree depth st x \<Longrightarrow> x = Inr res \<Longrightarrow> reject_state A \<noteq> accept_state A \<Longrightarrow>
   tree \<noteq> [] \<Longrightarrow>
   (\<forall>k. Suc k < length tree \<longrightarrow>
      (l, reject_state A, r) \<in> set (tree ! k) \<longrightarrow> (l, reject_state A, r) \<in> set (tree ! Suc k)) \<Longrightarrow>
   Suc k < length (trace res) \<Longrightarrow> (l, reject_state A, r) \<in> set (trace res ! k) \<Longrightarrow>
   (l, reject_state A, r) \<in> set (trace res ! Suc k)"
proof (induction arbitrary: res rule: run_loop.induct)
  case (bound_reached depth tree st)
  then show ?case by auto
next
  case (level_raises depth tree st e)
  then show ?case by simp
next
  case (level_empty depth tree st st')
  then show ?case by auto
next
  case (level_next depth tree st st' x)
  let ?tree = "tree @ [next_level st']"
  have link: "\<forall>k. Suc k < length ?tree \<longrightarrow>
      (l, reject_state A, r) \<in> set (?tree ! k) \<longrightarrow> (l, reject_state A, r) \<in> set (?tree ! Suc k)"
  proof (intro allI impI)
    fix j assume j: "Suc j < length ?tree" and mem: "(l, reject_state A, r) \<in> set (?tree ! j)"
    show "(l, reject_state A, r) \<in> set (?tree ! Suc j)"
    proof (cases "Suc j < length tree")
      case True
      with mem level_next.prems(4) show ?thesis by (simp add: nth_append)
    next
      case False
      with j have eq: "Suc j = length tree" by simp
      then have "j = length tree - 1" by simp
      with mem \<open>tree \<noteq> []\<close> have "(l, reject_state A, r) \<in> set (last tree)"
        by (simp add: nth_append last_conv_nth)
      from config_loop_keeps_reject[OF level_next.hyps(2) this level_next.prems(2)]
      show ?thesis using eq by (simp add: nth_append)
    qed
  qed
  from level_next.IH[OF level_next.prems(1,2) _ link level_next.prems(5,6)]
  show ?case by simp
qed

lemma run_loop_reject_stops:
  "run_loop A m tree depth st x \<Longrightarrow> x = Inr res \<Longrightarrow> reject_state A \<noteq> accept_state A \<Longrightarrow>
   tree \<noteq> [] \<Longrightarrow> length tree \<le> Suc d \<Longrightarrow> d < length (trace res) \<Longrightarrow>
   (l, reject_state A, r) \<in> set (trace res ! d) \<Longrightarrow> outcome res = Stopped m"
proof (induction arbitrary: res d rule: run_loop.induct)
  case (bound_reached depth tree st)
  then show ?case by auto
next
  case (level_raises depth tree st e)
  then show ?case by simp
next
  case (level_empty depth tree st st')
  from level_empty.prems have "d = length tree - 1" and "(l, reject_state A, r) \<in> set (tree ! d)"
    by auto
  with \<open>tree \<noteq> []\<close> have "(l, reject_state A, r) \<in> set (last tree)"
    by (simp add: last_conv_nth)
  from config_loop_keeps_reject[OF level_empty.hyps(2) this level_empty.prems(2)]
    level_empty.hyps(3)
  show ?case by simp
next
  case (level_next depth tree st st' x)
  let ?tree = "tree @ [next_level st']"
  show ?case
  proof (cases "length ?tree \<le> Suc d")
    case True
    from level_next.IH[OF level_next.prems(1,2) _ True level_next.prems(5,6)]
    show ?thesis by simp
  next
    case False
    with level_next.prems(4) have d: "Suc d = length tree" by simp
    from run_loop_trace_prefix[OF level_next.hyps(4) level_next.prems(1)]
    obtain ext where tr: "trace res = ?tree @ ext" by blast
    moreover from d have d': "d = length tree - 1" by simp
    ultimately have "(l, reject_state A, r) \<in> set (last tree)"
      using level_next.prems(6) \<open>tree \<noteq> []\<close> by (simp add: nth_append last_conv_nth)
    from config_loop_keeps_reject[OF level_next.hyps(2) this level_next.prems(2)]
    have "(l, reject_state A, r) \<in> set (trace res ! Suc d)"
      using tr d by (simp add: nth_append)
    moreover have "Suc d < length (trace res)" using tr d by simp
    moreover have "length ?tree \<le> Suc (Suc d)" using d by simp
    ultimately show ?thesis
      using level_next.IH[OF level_next.prems(1,2), of "Suc d"] by simp
  qed
qed

lemma run_loop_accept:
  "run_loop A m tree depth st x \<Longrightarrow> x = Inr res \<Longrightarrow> length tree = depth + 1 \<Longrightarrow>
   (\<forall>lvl \<in> set (butlast tree). \<forall>l r. (l, accept_state A, r) \<in> set lvl \<longrightarrow> accept_count st \<noteq> 0) \<Longrightarrow>
   lvl \<in> set (trace res) \<Longrightarrow> (l, accept_state A, r) \<in> set lvl \<Longrightarrow>
   outcome res \<noteq> Stopped m \<Longrightarrow> outcome res = Accepted (length (trace res) - 1)"
proof (induction arbitrary: res rule: run_loop.induct)
  case (bound_reached depth tree st)
  then show ?case by auto
next
  case (level_raises depth tree st e)
  then show ?case by simp
next
  case (level_empty depth tree st st')
  from level_empty.prems(2) have ne: "tree \<noteq> []" by auto
  from level_empty.prems(1,4) have "lvl \<in> set tree" by auto
  with ne have "lvl \<in> set (butlast tree) \<or> lvl = last tree"
    by (metis append_butlast_last_id insert_iff list.set(2) rotate1.simps(2) set_rotate1)
  then have "accept_count st' \<noteq> 0"
  proof
    assume "lvl \<in> set (butlast tree)"
    with level_empty.prems(3,5) have "accept_count st \<noteq> 0" by blast
    with config_loop_frame[OF level_empty.hyps(2)] show ?thesis by simp
  next
    assume "lvl = last tree"
    with level_empty.prems(5) config_loop_counts_accept[OF level_empty.hyps(2), of l r]
    show ?thesis by simp
  qed
  with level_empty.prems(1,2) show ?case by auto
next
  case (level_next depth tree st st' x)
  from level_next.prems(2) have ne: "tree \<noteq> []" by auto
  have inv: "\<forall>lvl \<in> set (butlast (tree @ [next_level st'])). \<forall>l r.
               (l, accept_state A, r) \<in> set lvl \<longrightarrow> accept_count st' \<noteq> 0"
  proof (intro ballI allI impI)
    fix lv l' r' assume lv: "lv \<in> set (butlast (tree @ [next_level st']))"
      and mem: "(l', accept_state A, r') \<in> set lv"
    from lv have "lv \<in> set tree" by (simp add: butlast_append)
    with ne have "lv \<in> set (butlast tree) \<or> lv = last tree"
      by (metis append_butlast_last_id insert_iff list.set(2) rotate1.simps(2) set_rotate1)
    then show "accept_count st' \<noteq> 0"
    proof
      assume "lv \<in> set (butlast tree)"
      with level_next.prems(3) mem have "accept_count st \<noteq> 0" by blast
      with config_loop_frame[OF level_next.hyps(2)] show ?thesis by simp
    next
      assume "lv = last tree"
      with mem config_loop_counts_accept[OF level_next.hyps(2), of l' r']
      show ?thesis by simp
    qed
  qed
  from level_next.IH[OF level_next.prems(1) _ inv level_next.prems(4,5,6)] level_next.prems(2)
  show ?case by simp
qed

lemma reject_in_later_levels:
  assumes "simulate_ntm A s m = Inr res" and "reject_state A \<noteq> accept_state A"
    and "(l, reject_state A, r) \<in> set (trace res ! i)" and "i \<le> j" and "j < length (trace res)"
  shows "(l, reject_state A, r) \<in> set (trace res ! j)"
  using assms(4,5)
proof (induction j)
  case 0
  with assms(3) show ?case by simp
next
  case (Suc j)
  show ?case
  proof (cases "i = Suc j")
    case True
    with assms(3) show ?thesis by simp
  next
    case False
    with Suc have mem: "(l, reject_state A, r) \<in> set (trace res ! j)" by simp
    have run: "run_loop A m [[([], start_state A, concat (list_of_str s))]] 0 initial_locals
                 (simulate_ntm A s m)"
      using simulate_run_simulate_ntm[of A s m] by (simp add: simulate_run_def)
    from run_loop_reject_kept[OF run assms(1,2) _ _ Suc.prems(2) mem]
    show ?thesis by simp
  qed
qed

lemma well_formed_never_raises:
  assumes "\<forall>t \<in> set (transitions A). head_move t \<in> {''L'', ''R'', ''S''}"
  shows "\<exists>res. simulate_ntm A s m = Inr res"
proof -
  have "\<exists>res. x = Inr res" if "run_loop A m tree depth st x" for tree depth st x
    using that
  proof (induction rule: run_loop.induct)
    case (level_raises depth tree st e)
    with config_loop_known_moves[OF assms, of "last tree" "st\<lparr>next_level := []\<rparr>"]
    show ?case by simp
  qed simp_all
  with simulate_run_simulate_ntm[of A s m] show ?thesis
    unfolding simulate_run_def by blast
qed

section \<open>Two runs\<close>

lemma late_run: "simulate_ntm machine_late ''a'' 100 =
     Inr \<lparr>outcome = Accepted 2, total = 3,
          trace = [[([], ''q0'', ''a'')], [([], ''qa'', ''a''), ([], ''q1'', ''a'')],
                   [([], ''q2'', ''a'')]]\<rparr>"
  by (simp add: machine_defs run_defs while_loop.simps)

lemma both_run: "simulate_ntm machine_both ''a'' 3 =
     Inr \<lparr>outcome = Stopped 3, total = 2,
          trace = [[([], ''q0'', ''a'')], [([], ''qr'', ''a''), ([], ''qa'', ''a'')],
                   [([], ''qr'', ''a'')], [([], ''qr'', ''a'')]]\<rparr>"
  by (simp add: machine_defs run_defs while_loop.simps)

section \<open>Which rules are applied\<close>

lemma rule_applies_past_end:
  "length tape \<le> head \<Longrightarrow> rule_applies t state tape head \<longleftrightarrow> current_state t = state"
  by (simp add: rule_applies_def)

text \<open>
  C1. On the empty input the head of the initial configuration is past the end of the
  tape. The only rule of \<open>machine_blank\<close> reads \<open>a\<close>, not the blank \<open>_\<close>, and it is
  applied all the same: the run makes one transition and level 1 holds its result.
\<close>

theorem out_of_bounds_rule_applied:
  "rule_applies (rule ''q0'' ''a'' ''q1'' ''x'' ''R'') ''q0'' (list_of_str []) 0 \<and>
   input_char (rule ''q0'' ''a'' ''q1'' ''x'' ''R'') \<noteq> ''_'' \<and>
   simulate_ntm machine_blank [] 100 =
     Inr \<lparr>outcome = Rejected 1, total = 1,
          trace = [[([], ''q0'', [])], [(''x'', ''q1'', ''_'')]]\<rparr>"
  by (simp add: machine_defs run_defs while_loop.simps)

section \<open>Acceptance\<close>

text \<open>
  C2, as the claim states it, fails: in the run of \<open>machine_late\<close> on \<open>a\<close> a branch is
  in the accepting state \<open>qa\<close> at depth 1, another branch lives one level longer, and
  the verdict is "accepted in 2 transitions".
\<close>

theorem accept_depth_counterexample:
  "simulate_ntm machine_late ''a'' 100 =
     Inr \<lparr>outcome = Accepted 2, total = 3,
          trace = [[([], ''q0'', ''a'')], [([], ''qa'', ''a''), ([], ''q1'', ''a'')],
                   [([], ''q2'', ''a'')]]\<rparr> \<and>
   accept_state machine_late = ''qa''"
  by (simp add: late_run) (simp add: machine_defs)

text \<open>
  C2, amended. If a configuration in the accepting state is in level \<open>d\<close> of the trace
  and the run ends on an empty next level (not at the step bound), the verdict is
  "accepted" and the depth reported is the index of the last level of the trace, which
  is at least \<open>d\<close>.
\<close>

theorem accept_found_verdict:
  assumes "simulate_ntm A s m = Inr res" and "d < length (trace res)"
    and "(l, accept_state A, r) \<in> set (trace res ! d)" and "outcome res \<noteq> Stopped m"
  shows "outcome res = Accepted (length (trace res) - 1) \<and> d \<le> length (trace res) - 1"
proof -
  have run: "run_loop A m [[([], start_state A, concat (list_of_str s))]] 0 initial_locals
               (simulate_ntm A s m)"
    using simulate_run_simulate_ntm[of A s m] by (simp add: simulate_run_def)
  from assms(2) have "trace res ! d \<in> set (trace res)" by simp
  from run_loop_accept[OF run assms(1) _ _ this assms(3,4)] assms(2)
  show ?thesis by simp
qed

theorem accept_found_verdict_witness:
  "simulate_ntm machine_late ''a'' 100 =
     Inr \<lparr>outcome = Accepted 2, total = 3,
          trace = [[([], ''q0'', ''a'')], [([], ''qa'', ''a''), ([], ''q1'', ''a'')],
                   [([], ''q2'', ''a'')]]\<rparr> \<and>
   (1 :: nat) < length [[([], ''q0'', ''a'')], [([], ''qa'', ''a''), ([], ''q1'', ''a'')],
                   [([], ''q2'', ''a'')]] \<and>
   ([], accept_state machine_late, ''a'') \<in>
     set ([[([], ''q0'', ''a'')], [([], ''qa'', ''a''), ([], ''q1'', ''a'')],
                   [([], ''q2'', ''a'')]] ! 1) \<and>
   Accepted 2 \<noteq> Stopped 100 \<and>
   Accepted 2 = Accepted (length [[([], ''q0'', ''a'')], [([], ''qa'', ''a''), ([], ''q1'', ''a'')],
                   [([], ''q2'', ''a'')]] - 1)"
proof -
  let ?res = "\<lparr>outcome = Accepted 2, total = 3,
          trace = [[([], ''q0'', ''a'')], [([], ''qa'', ''a''), ([], ''q1'', ''a'')],
                   [([], ''q2'', ''a'')]]\<rparr>"
  have h1: "simulate_ntm machine_late ''a'' 100 = Inr ?res" by (rule late_run)
  have h2: "1 < length (trace ?res)" by simp
  have h3: "([], accept_state machine_late, ''a'') \<in> set (trace ?res ! 1)"
    by (simp add: machine_defs)
  have h4: "outcome ?res \<noteq> Stopped 100" by simp
  from accept_found_verdict[OF h1 h2 h3 h4] h1 h2 h3 h4 show ?thesis by simp
qed

text \<open>
  C5. A configuration in the accepting state adds one to the accept counter and nothing
  else: the level with it is processed as the level without it, so it has no successor
  in the next level, and the configurations before and after it are expanded as usual.
\<close>

theorem accept_config_dropped:
  assumes "q = accept_state A"
  shows "config_loop A (pre @ (l, q, r) # post) st =
           map_sum id (\<lambda>s. s\<lparr>accept_count := accept_count s + 1\<rparr>)
             (config_loop A (pre @ post) st)"
proof (cases "config_loop A pre st")
  case (Inl e)
  then show ?thesis by (simp add: config_loop_append)
next
  case (Inr st1)
  with assms show ?thesis
    by (simp add: config_loop_append config_loop_accept_count[of A post st1 1, simplified])
qed

theorem accept_config_dropped_witness:
  "''qa'' = accept_state machine_late \<and>
   config_loop machine_late [([], ''q1'', ''a''), ([], ''qa'', ''a''), ([], ''q0'', ''a'')]
       initial_locals =
     map_sum id (\<lambda>s. s\<lparr>accept_count := accept_count s + 1\<rparr>)
       (config_loop machine_late [([], ''q1'', ''a''), ([], ''q0'', ''a'')] initial_locals) \<and>
   config_loop machine_late [([], ''q1'', ''a''), ([], ''qa'', ''a''), ([], ''q0'', ''a'')]
       initial_locals =
     Inr \<lparr>total_transitions = 3, accept_count = 1, reject_count = 0,
          next_level = [([], ''q2'', ''a''), ([], ''qa'', ''a''), ([], ''q1'', ''a'')],
          new_head = Some 0\<rparr>"
proof -
  have h: "''qa'' = accept_state machine_late" by (simp add: machine_defs)
  have v: "config_loop machine_late [([], ''q1'', ''a''), ([], ''q0'', ''a'')] initial_locals =
     Inr \<lparr>total_transitions = 3, accept_count = 0, reject_count = 0,
          next_level = [([], ''q2'', ''a''), ([], ''qa'', ''a''), ([], ''q1'', ''a'')],
          new_head = Some 0\<rparr>"
    by (simp add: machine_defs run_defs)
  from accept_config_dropped[OF h, of "[([], ''q1'', ''a'')]" "[]" "''a''"
      "[([], ''q0'', ''a'')]" initial_locals] h v
  show ?thesis by simp
qed

section \<open>Rejection\<close>

text \<open>
  C3, as the claim states it, fails where the rejecting state is also the accepting
  state: the check of line 79 comes first, and the configuration is counted as accepted
  and dropped.
\<close>

theorem reject_retained_counterexample:
  "reject_state machine_halt = ''qh'' \<and>
   config_loop machine_halt [([], ''qh'', ''a'')] initial_locals =
     Inr \<lparr>total_transitions = 0, accept_count = 1, reject_count = 0, next_level = [],
          new_head = None\<rparr>"
  by (simp add: machine_defs run_defs)

text \<open>
  C3, amended. Where the rejecting state differs from the accepting state, a
  configuration in the rejecting state is not expanded: the loop goes on to the rest of
  the level with the transition counter as it was and the same configuration appended
  to the next level. In the trace of a run it is in every level after one it is in.
\<close>

theorem reject_config_retained:
  assumes "reject_state A \<noteq> accept_state A"
  shows "config_loop A ((l, reject_state A, r) # cs) st =
           config_loop A cs
             (st\<lparr>reject_count := reject_count st + 1,
                 next_level := next_level st @ [(l, reject_state A, r)]\<rparr>) \<and>
         (simulate_ntm A s m = Inr res \<and> (l, reject_state A, r) \<in> set (trace res ! i) \<and>
          i \<le> j \<and> j < length (trace res) \<longrightarrow>
          (l, reject_state A, r) \<in> set (trace res ! j))"
  using assms reject_in_later_levels[of A s m res l r i j] by simp

theorem reject_config_retained_witness:
  "reject_state machine_both \<noteq> accept_state machine_both \<and>
   config_loop machine_both [([], reject_state machine_both, ''a'')] initial_locals =
     Inr \<lparr>total_transitions = 0, accept_count = 0, reject_count = 1,
          next_level = [([], ''qr'', ''a'')], new_head = None\<rparr> \<and>
   simulate_ntm machine_both ''a'' 3 =
     Inr \<lparr>outcome = Stopped 3, total = 2,
          trace = [[([], ''q0'', ''a'')], [([], ''qr'', ''a''), ([], ''qa'', ''a'')],
                   [([], ''qr'', ''a'')], [([], ''qr'', ''a'')]]\<rparr> \<and>
   ([], reject_state machine_both, ''a'') \<in>
     set ([[([], ''q0'', ''a'')], [([], ''qr'', ''a''), ([], ''qa'', ''a'')],
           [([], ''qr'', ''a'')], [([], ''qr'', ''a'')]] ! 1) \<and>
   ([], reject_state machine_both, ''a'') \<in>
     set ([[([], ''q0'', ''a'')], [([], ''qr'', ''a''), ([], ''qa'', ''a'')],
           [([], ''qr'', ''a'')], [([], ''qr'', ''a'')]] ! 3)"
proof -
  let ?res = "\<lparr>outcome = Stopped 3, total = 2,
          trace = [[([], ''q0'', ''a'')], [([], ''qr'', ''a''), ([], ''qa'', ''a'')],
                   [([], ''qr'', ''a'')], [([], ''qr'', ''a'')]]\<rparr>"
  have h0: "reject_state machine_both \<noteq> accept_state machine_both"
    by (simp add: machine_defs)
  have h1: "simulate_ntm machine_both ''a'' 3 = Inr ?res" by (rule both_run)
  have h2: "([], reject_state machine_both, ''a'') \<in> set (trace ?res ! 1)"
    by (simp add: machine_defs)
  have h3: "(1 :: nat) \<le> 3 \<and> 3 < length (trace ?res)" by simp
  from reject_config_retained[OF h0, of "[]" "''a''" "[]" initial_locals "''a''" 3 ?res 1 3]
    h0 h1 h2 h3
  show ?thesis by (simp add: initial_locals_def)
qed

text \<open>
  C4, as the claim states it, fails where the rejecting state is also the accepting
  state: in the run of \<open>machine_halt\<close> level 1 holds a configuration in the state \<open>qh\<close>,
  the next level is empty and the verdict is "accepted".
\<close>

theorem reject_step_bound_counterexample:
  "reject_state machine_halt = ''qh'' \<and>
   simulate_ntm machine_halt ''a'' 100 =
     Inr \<lparr>outcome = Accepted 1, total = 1,
          trace = [[([], ''q0'', ''a'')], [([], ''qh'', ''a'')]]\<rparr>"
  by (simp add: machine_defs run_defs while_loop.simps)

text \<open>
  C4, amended. Where the rejecting state differs from the accepting state and a
  configuration in the rejecting state is in some level of the trace, every level from
  there on is non-empty, the run goes on until the step bound (\<open>max_steps\<close> levels after
  the initial one) and its message is the one of the maximum depth, whether or not a
  branch has accepted.
\<close>

theorem reject_forces_step_bound:
  assumes "reject_state A \<noteq> accept_state A" and "simulate_ntm A s m = Inr res"
    and "d < length (trace res)" and "(l, reject_state A, r) \<in> set (trace res ! d)"
  shows "outcome res = Stopped m \<and> length (trace res) = nat m + 1 \<and>
         (\<forall>j. d \<le> j \<and> j < length (trace res) \<longrightarrow> trace res ! j \<noteq> [])"
proof -
  have run: "run_loop A m [[([], start_state A, concat (list_of_str s))]] 0 initial_locals
               (simulate_ntm A s m)"
    using simulate_run_simulate_ntm[of A s m] by (simp add: simulate_run_def)
  from run_loop_reject_stops[OF run assms(2,1) _ _ assms(3,4)]
  have stop: "outcome res = Stopped m" by simp
  with run_loop_depth[OF run assms(2)] have len: "length (trace res) = nat m + 1" by simp
  have "trace res ! j \<noteq> []" if "d \<le> j" "j < length (trace res)" for j
    using reject_in_later_levels[OF assms(2,1,4) that] by auto
  with stop len show ?thesis by blast
qed

theorem reject_forces_step_bound_witness:
  "reject_state machine_both \<noteq> accept_state machine_both \<and>
   simulate_ntm machine_both ''a'' 3 =
     Inr \<lparr>outcome = Stopped 3, total = 2,
          trace = [[([], ''q0'', ''a'')], [([], ''qr'', ''a''), ([], ''qa'', ''a'')],
                   [([], ''qr'', ''a'')], [([], ''qr'', ''a'')]]\<rparr> \<and>
   (1 :: nat) < length [[([], ''q0'', ''a'')], [([], ''qr'', ''a''), ([], ''qa'', ''a'')],
                   [([], ''qr'', ''a'')], [([], ''qr'', ''a'')]] \<and>
   ([], reject_state machine_both, ''a'') \<in>
     set ([[([], ''q0'', ''a'')], [([], ''qr'', ''a''), ([], ''qa'', ''a'')],
           [([], ''qr'', ''a'')], [([], ''qr'', ''a'')]] ! 1) \<and>
   length [[([], ''q0'', ''a'')], [([], ''qr'', ''a''), ([], ''qa'', ''a'')],
                   [([], ''qr'', ''a'')], [([], ''qr'', ''a'')]] = nat 3 + 1"
proof -
  let ?res = "\<lparr>outcome = Stopped 3, total = 2,
          trace = [[([], ''q0'', ''a'')], [([], ''qr'', ''a''), ([], ''qa'', ''a'')],
                   [([], ''qr'', ''a'')], [([], ''qr'', ''a'')]]\<rparr>"
  have h0: "reject_state machine_both \<noteq> accept_state machine_both"
    by (simp add: machine_defs)
  have h1: "simulate_ntm machine_both ''a'' 3 = Inr ?res" by (rule both_run)
  have h2: "1 < length (trace ?res)" by simp
  have h3: "([], reject_state machine_both, ''a'') \<in> set (trace ?res ! 1)"
    by (simp add: machine_defs)
  from reject_forces_step_bound[OF h0 h1 h2 h3] h0 h1 h2 h3 show ?thesis by simp
qed

section \<open>The empty transition table\<close>

text \<open>
  C6, as the claim states it, fails where the start state is the accepting state: the
  run of \<open>machine_start_accepts\<close>, whose table is empty, on the input \<open>a\<close> ends with the
  verdict "accepted" at depth 0.
\<close>

theorem empty_table_counterexample:
  "transitions machine_start_accepts = [] \<and> ''a'' \<noteq> [] \<and>
   simulate_ntm_default machine_start_accepts ''a'' =
     Inr \<lparr>outcome = Accepted 0, total = 0, trace = [[([], ''qa'', ''a'')]]\<rparr>"
  by (simp add: machine_defs run_defs while_loop.simps)

text \<open>
  C6, amended. A machine with an empty transition table whose start state is neither the
  accepting nor the rejecting state, run on any input with a step bound of at least 1
  (the default 100 is one), is rejected at depth 0 with no transition made; the trace is
  the initial level alone.
\<close>

theorem empty_table_rejects:
  assumes "transitions A = []"
    and "start_state A \<noteq> accept_state A" and "start_state A \<noteq> reject_state A"
    and "0 < max_steps"
  shows "simulate_ntm A input_string max_steps =
           Inr \<lparr>outcome = Rejected 0, total = 0,
                trace = [[([], start_state A, input_string)]]\<rparr> \<and>
         simulate_ntm_default A input_string =
           Inr \<lparr>outcome = Rejected 0, total = 0,
                trace = [[([], start_state A, input_string)]]\<rparr>"
  using assms
  by (simp add: simulate_ntm_def simulate_ntm_default_def initial_locals_def while_loop.simps)

theorem empty_table_rejects_witness:
  "transitions machine_empty = [] \<and>
   start_state machine_empty \<noteq> accept_state machine_empty \<and>
   start_state machine_empty \<noteq> reject_state machine_empty \<and> (0 :: int) < 100 \<and>
   simulate_ntm machine_empty ''ab'' 100 =
     Inr \<lparr>outcome = Rejected 0, total = 0, trace = [[([], ''q0'', ''ab'')]]\<rparr>"
proof -
  have h: "transitions machine_empty = []"
    "start_state machine_empty \<noteq> accept_state machine_empty"
    "start_state machine_empty \<noteq> reject_state machine_empty" "(0 :: int) < 100"
    by (simp_all add: machine_defs)
  from empty_table_rejects[OF h, of "''ab''"] h show ?thesis
    by (simp add: machine_defs)
qed

section \<open>The step bound\<close>



section \<open>Malformed moves\<close>

text \<open>
  C9. The second rule of \<open>machine_bad_move\<close> has the move \<open>X\<close>. The run does not fail:
  the rule is applied with the head position left by the rule before it, and the run goes
  on to its verdict. When such a rule is the first one applied, the run raises.
\<close>

theorem unknown_move_reuses_head:
  "simulate_ntm machine_bad_move ''a'' 100 =
     Inr \<lparr>outcome = Rejected 1, total = 2,
          trace = [[([], ''q0'', ''a'')], [(''a'', ''q1'', ''_''), (''b'', ''q2'', ''_'')]]\<rparr> \<and>
   simulate_ntm (machine ''q0'' ''qa'' ''qr'' [rule ''q0'' ''a'' ''q2'' ''b'' ''X'']) ''a'' 100 =
     Inl UnboundLocalError"
  by (simp add: machine_defs run_defs while_loop.simps)

section \<open>Determinism\<close>



end
